theory Spec2Isabelle
  imports Main "HOL-Library.Word"
begin

unbundle bit_operations_syntax

section \<open>primitives/block.h: block header, block and block locator\<close>

text \<open>
  A shallow embedding of \<^verbatim>\<open>src/primitives/block.h\<close>.  The classes \<^verbatim>\<open>CBlockHeader\<close>,
  \<^verbatim>\<open>CBlock\<close> and \<^verbatim>\<open>CBlockLocator\<close> are records (\<^verbatim>\<open>CBlock\<close> extends the header
  record, as the class derives from \<^verbatim>\<open>CBlockHeader\<close>); the stream a
  \<^verbatim>\<open>SerializationOp\<close> works on is passed explicitly; a read that throws and the read of
  an element outside a vector are values of the type \<open>error\<close>.

  The headers \<^verbatim>\<open>serialize.h\<close>, \<^verbatim>\<open>hash.h\<close>, \<^verbatim>\<open>uint256.h\<close>, \<^verbatim>\<open>util.h\<close> and
  \<^verbatim>\<open>primitives/transaction.h\<close> are included by \<^verbatim>\<open>block.h\<close> and are not part of the
  sources at hand.  What \<^verbatim>\<open>block.h\<close> uses of them is either a parameter of the model
  (the records \<open>serialize_h\<close> and \<open>transaction_h\<close>, the function \<open>Hash\<close>, the flag
  \<open>-printstakemodifier\<close>) or a definition marked as modelled from the specification.
\<close>

subsection \<open>Bytes, fixed-width integers and errors\<close>

type_synonym byte = "8 word"
type_synonym int32_t = "32 word"
type_synonym uint32_t = "32 word"
type_synonym uint64_t = "64 word"
type_synonym uint256 = "256 word"

text \<open>
  \<open>ios_base_failure\<close> is the exception a stream throws when it is asked for more bytes
  than it holds, or that a primitive decoder throws; \<open>out_of_bounds\<close> is
  the read of an element of a \<^verbatim>\<open>std::vector\<close> at an index that is not below
  \<^verbatim>\<open>size()\<close>, which C++ leaves undefined.
\<close>

datatype error = ios_base_failure | out_of_bounds

text \<open>
  The bytes of a fixed-width integer, least significant byte first: the image of the
  value in the memory of a little-endian host, and the form in which the codec framework
  writes it.
\<close>

fun le_bytes :: "nat \<Rightarrow> 'a::len word \<Rightarrow> byte list" where
  "le_bytes 0 w = []"
| "le_bytes (Suc n) w = ucast w # le_bytes n (drop_bit 8 w)"

fun le_word :: "byte list \<Rightarrow> 'a::len word" where
  "le_word [] = 0"
| "le_word (b # bs) = ucast b OR push_bit 8 (le_word bs)"

text \<open>Reading the element \<^verbatim>\<open>v[i]\<close> of a \<^verbatim>\<open>std::vector\<close>.\<close>

definition vector_at :: "'a list \<Rightarrow> nat \<Rightarrow> error + 'a" where
  "vector_at v i = (if i < length v then Inr (v ! i) else Inl out_of_bounds)"

subsection \<open>The stream and the primitive codecs (serialize.h)\<close>

text \<open>
  A stream carries its type flags (\<^verbatim>\<open>GetType()\<close>), its protocol version
  (\<^verbatim>\<open>GetVersion()\<close>) and its bytes.  Writing appends; reading takes from the front and
  throws when the stream is too short.
\<close>

record Stream =
  nType :: int32_t
  nStreamVersion :: int32_t
  vch :: "byte list"

definition stream_write :: "byte list \<Rightarrow> Stream \<Rightarrow> Stream" where
  "stream_write bs s = s\<lparr>vch := vch s @ bs\<rparr>"

definition stream_read :: "nat \<Rightarrow> Stream \<Rightarrow> error + byte list \<times> Stream" where
  "stream_read n s =
     (if length (vch s) < n then Inl ios_base_failure
      else Inr (take n (vch s), s\<lparr>vch := drop n (vch s)\<rparr>))"

text \<open>
  Modelled from the spec: \<^verbatim>\<open>serialize.h\<close> is missing.  ``Low-level primitive read/write
  operations for fixed-width integers, fixed-width hashes'': a value of \<open>n\<close> bytes is
  written as its \<open>n\<close> bytes and read back from the next \<open>n\<close> bytes of the stream.
\<close>

definition ser_word :: "nat \<Rightarrow> 'a::len word \<Rightarrow> Stream \<Rightarrow> Stream" where
  "ser_word n w s = stream_write (le_bytes n w) s"

definition unser_word :: "nat \<Rightarrow> Stream \<Rightarrow> error + 'a::len word \<times> Stream" where
  "unser_word n s =
     (case stream_read n s of
        Inl e \<Rightarrow> Inl e
      | Inr (bs, s') \<Rightarrow> Inr (le_word bs, s'))"

text \<open>
  What \<^verbatim>\<open>block.h\<close> takes from \<^verbatim>\<open>serialize.h\<close> beyond that: the two type flags it
  tests, and the codec of the length prefix of a vector.  They are parameters.
\<close>

record serialize_h =
  SER_GETHASH :: int32_t
  SER_BLOCKHEADERONLY :: int32_t
  WriteCompactSize :: "nat \<Rightarrow> byte list"
  ReadCompactSize :: "byte list \<Rightarrow> error + nat \<times> byte list"

text \<open>A primitive decoder on bytes, run on the stream.\<close>

definition on_stream :: "(byte list \<Rightarrow> error + 'a \<times> byte list) \<Rightarrow> Stream \<Rightarrow> error + 'a \<times> Stream" where
  "on_stream rd s =
     (case rd (vch s) of
        Inl e \<Rightarrow> Inl e
      | Inr (v, rest) \<Rightarrow> Inr (v, s\<lparr>vch := rest\<rparr>))"

text \<open>
  Modelled from the spec: \<^verbatim>\<open>serialize.h\<close> is missing.  ``Length-prefixed sequences of
  serializable values'': a vector is written as its length followed by its elements in
  order; reading clears the vector, reads the length and then that many elements.
\<close>

fun ser_elems :: "('a \<Rightarrow> Stream \<Rightarrow> Stream) \<Rightarrow> 'a list \<Rightarrow> Stream \<Rightarrow> Stream" where
  "ser_elems put [] s = s"
| "ser_elems put (x # xs) s = ser_elems put xs (put x s)"

definition ser_vector :: "serialize_h \<Rightarrow> ('a \<Rightarrow> Stream \<Rightarrow> Stream) \<Rightarrow> 'a list \<Rightarrow> Stream \<Rightarrow> Stream" where
  "ser_vector S put v s = ser_elems put v (stream_write (WriteCompactSize S (length v)) s)"

fun unser_elems :: "(Stream \<Rightarrow> error + 'a \<times> Stream) \<Rightarrow> nat \<Rightarrow> Stream \<Rightarrow> error + 'a list \<times> Stream" where
  "unser_elems get 0 s = Inr ([], s)"
| "unser_elems get (Suc k) s =
     (case get s of
        Inl e \<Rightarrow> Inl e
      | Inr (x, s') \<Rightarrow>
          (case unser_elems get k s' of
             Inl e \<Rightarrow> Inl e
           | Inr (xs, s'') \<Rightarrow> Inr (x # xs, s'')))"

definition unser_vector :: "serialize_h \<Rightarrow> (Stream \<Rightarrow> error + 'a \<times> Stream) \<Rightarrow> Stream \<Rightarrow> error + 'a list \<times> Stream" where
  "unser_vector S get s =
     (case on_stream (ReadCompactSize S) s of
        Inl e \<Rightarrow> Inl e
      | Inr (k, s') \<Rightarrow> unser_elems get k s')"

subsection \<open>Transactions (primitives/transaction.h)\<close>

text \<open>
  Modelled from the spec: \<^verbatim>\<open>primitives/transaction.h\<close> is missing.  An outpoint names
  an output of a transaction by the transaction's hash and the output's index; the
  default-constructed \<^verbatim>\<open>COutPoint()\<close> is the ``null outpoint''.
\<close>

record COutPoint =
  outpoint_hash :: uint256
  outpoint_n :: uint32_t

definition COutPoint_null :: COutPoint where
  "COutPoint_null = \<lparr>outpoint_hash = 0, outpoint_n = - 1\<rparr>"

record CTxIn =
  prevout :: COutPoint

text \<open>
  The transaction type itself is a type variable.  What \<^verbatim>\<open>block.h\<close> uses of a
  transaction is a parameter: \<^verbatim>\<open>IsCoinStake()\<close>, the members \<^verbatim>\<open>vin\<close> and \<^verbatim>\<open>nTime\<close>,
  and its codec.
\<close>

record 'tx transaction_h =
  IsCoinStake :: "'tx \<Rightarrow> bool"
  tx_vin :: "'tx \<Rightarrow> CTxIn list"
  tx_nTime :: "'tx \<Rightarrow> uint32_t"
  SerializeTx :: "'tx \<Rightarrow> byte list"
  UnserializeTx :: "byte list \<Rightarrow> error + 'tx \<times> byte list"

subsection \<open>CBlockHeader\<close>

record CBlockHeader =
  nVersion :: int32_t
  hashPrevBlock :: uint256
  hashMerkleRoot :: uint256
  nTime :: uint32_t
  nBits :: uint32_t
  nNonce :: uint32_t

definition LEGACY_VERSION_1 :: int where "LEGACY_VERSION_1 = 1"
definition LEGACY_VERSION_2 :: int where "LEGACY_VERSION_2 = 2"
definition CURRENT_VERSION :: int where "CURRENT_VERSION = 3"

text \<open>\<^verbatim>\<open>CBlockHeader::SerializationOp\<close>, writing.\<close>

definition CBlockHeader_Serialize :: "'a CBlockHeader_scheme \<Rightarrow> Stream \<Rightarrow> Stream" where
  "CBlockHeader_Serialize h s =
     ser_word 4 (nNonce h)
       (ser_word 4 (nBits h)
         (ser_word 4 (nTime h)
           (ser_word 32 (hashMerkleRoot h)
             (ser_word 32 (hashPrevBlock h)
               (ser_word 4 (nVersion h) s)))))"

text \<open>\<^verbatim>\<open>CBlockHeader::SerializationOp\<close>, reading into \<open>h\<close>.\<close>

definition CBlockHeader_Unserialize :: "'a CBlockHeader_scheme \<Rightarrow> Stream \<Rightarrow> error + 'a CBlockHeader_scheme \<times> Stream" where
  "CBlockHeader_Unserialize h s0 =
     (case unser_word 4 s0 of Inl e \<Rightarrow> Inl e | Inr (v, s1) \<Rightarrow>
      (case unser_word 32 s1 of Inl e \<Rightarrow> Inl e | Inr (p, s2) \<Rightarrow>
       (case unser_word 32 s2 of Inl e \<Rightarrow> Inl e | Inr (m, s3) \<Rightarrow>
        (case unser_word 4 s3 of Inl e \<Rightarrow> Inl e | Inr (t, s4) \<Rightarrow>
         (case unser_word 4 s4 of Inl e \<Rightarrow> Inl e | Inr (b, s5) \<Rightarrow>
          (case unser_word 4 s5 of Inl e \<Rightarrow> Inl e | Inr (c, s6) \<Rightarrow>
             Inr (h\<lparr>nVersion := v, hashPrevBlock := p, hashMerkleRoot := m,
                     nTime := t, nBits := b, nNonce := c\<rparr>, s6)))))))"

definition CBlockHeader_SetNull :: "'a CBlockHeader_scheme \<Rightarrow> 'a CBlockHeader_scheme" where
  "CBlockHeader_SetNull h =
     h\<lparr>nVersion := 0, hashPrevBlock := 0, hashMerkleRoot := 0, nTime := 0, nBits := 0, nNonce := 0\<rparr>"

definition CBlockHeader_IsNull :: "'a CBlockHeader_scheme \<Rightarrow> bool" where
  "CBlockHeader_IsNull h = (nBits h = 0)"

text \<open>
  The bytes from \<^verbatim>\<open>BEGIN(nVersion)\<close> to \<^verbatim>\<open>END(nNonce)\<close>: the six members lie one after
  the other in the object (4 + 32 + 32 + 4 + 4 + 4 bytes, none of them needs padding), on
  a little-endian host.
\<close>

definition header_range :: "'a CBlockHeader_scheme \<Rightarrow> byte list" where
  "header_range h =
     le_bytes 4 (nVersion h) @ le_bytes 32 (hashPrevBlock h) @ le_bytes 32 (hashMerkleRoot h) @
     le_bytes 4 (nTime h) @ le_bytes 4 (nBits h) @ le_bytes 4 (nNonce h)"

text \<open>
  \<^verbatim>\<open>CBlockHeader::GetHash\<close>.  \<^verbatim>\<open>Hash\<close> (of \<^verbatim>\<open>hash.h\<close>) is a parameter: any function
  from a range of bytes to a 256-bit value.
\<close>

definition GetHash :: "(byte list \<Rightarrow> uint256) \<Rightarrow> 'a CBlockHeader_scheme \<Rightarrow> uint256" where
  "GetHash Hash h = Hash (header_range h)"

text \<open>
  \<^verbatim>\<open>CBlockHeader::GetPoWHash\<close>.  \<^verbatim>\<open>scrypt_1024_1_1_256\<close> (of \<^verbatim>\<open>crypto/scrypt.h\<close>)
  is a parameter; it reads the 80 bytes that start at \<^verbatim>\<open>BEGIN(nVersion)\<close>.
\<close>

definition GetPoWHash :: "(byte list \<Rightarrow> uint256) \<Rightarrow> 'a CBlockHeader_scheme \<Rightarrow> uint256" where
  "GetPoWHash scrypt_1024_1_1_256 h = scrypt_1024_1_1_256 (header_range h)"

definition GetBlockTime :: "'a CBlockHeader_scheme \<Rightarrow> 64 word" where
  "GetBlockTime h = ucast (nTime h)"

subsection \<open>CBlock\<close>

record 'tx CBlock = CBlockHeader +
  vtx :: "'tx list"
  vchBlockSig :: "byte list"
  fChecked :: bool

definition CBlock_SetNull :: "'tx CBlock \<Rightarrow> 'tx CBlock" where
  "CBlock_SetNull b = (CBlockHeader_SetNull b)\<lparr>vtx := [], vchBlockSig := [], fChecked := False\<rparr>"

text \<open>The constructor \<^verbatim>\<open>CBlock()\<close>: \<^verbatim>\<open>SetNull()\<close> on a new object.\<close>

definition CBlock_new :: "'tx CBlock" where
  "CBlock_new =
     \<lparr>nVersion = 0, hashPrevBlock = 0, hashMerkleRoot = 0, nTime = 0, nBits = 0, nNonce = 0,
      vtx = [], vchBlockSig = [], fChecked = False\<rparr>"

text \<open>The constructor \<^verbatim>\<open>CBlock(const CBlockHeader &header)\<close>.\<close>

definition CBlock_of_header :: "CBlockHeader \<Rightarrow> 'tx CBlock" where
  "CBlock_of_header h =
     CBlock_new\<lparr>nVersion := nVersion h, hashPrevBlock := hashPrevBlock h,
                hashMerkleRoot := hashMerkleRoot h, nTime := nTime h, nBits := nBits h,
                nNonce := nNonce h\<rparr>"

definition GetBlockHeader :: "'tx CBlock \<Rightarrow> CBlockHeader" where
  "GetBlockHeader b =
     \<lparr>nVersion = nVersion b, hashPrevBlock = hashPrevBlock b, hashMerkleRoot = hashMerkleRoot b,
      nTime = nTime b, nBits = nBits b, nNonce = nNonce b\<rparr>"

text \<open>The test \<^verbatim>\<open>s.GetType() & (SER_GETHASH|SER_BLOCKHEADERONLY)\<close>.\<close>

definition header_only :: "serialize_h \<Rightarrow> Stream \<Rightarrow> bool" where
  "header_only S s = (nType s AND (SER_GETHASH S OR SER_BLOCKHEADERONLY S) \<noteq> 0)"

definition ser_tx :: "'tx transaction_h \<Rightarrow> 'tx \<Rightarrow> Stream \<Rightarrow> Stream" where
  "ser_tx T tx s = stream_write (SerializeTx T tx) s"

definition ser_byte :: "byte \<Rightarrow> Stream \<Rightarrow> Stream" where
  "ser_byte b s = stream_write [b] s"

definition unser_byte :: "Stream \<Rightarrow> error + byte \<times> Stream" where
  "unser_byte s =
     (case stream_read 1 s of
        Inl e \<Rightarrow> Inl e
      | Inr (bs, s') \<Rightarrow> Inr (hd bs, s'))"

text \<open>\<^verbatim>\<open>CBlock::SerializationOp\<close>, writing.\<close>

definition CBlock_Serialize :: "serialize_h \<Rightarrow> 'tx transaction_h \<Rightarrow> 'tx CBlock \<Rightarrow> Stream \<Rightarrow> Stream" where
  "CBlock_Serialize S T b s0 =
     (let s1 = CBlockHeader_Serialize b s0 in
      if \<not> header_only S s1 then
        (let s2 = ser_vector S (ser_tx T) (vtx b) s1 in
         if CURRENT_VERSION \<le> sint (nVersion b) then ser_vector S ser_byte (vchBlockSig b) s2
         else s2)
      else s1)"

text \<open>\<^verbatim>\<open>CBlock::SerializationOp\<close>, reading into the block \<open>b\<close>.\<close>

definition CBlock_Unserialize :: "serialize_h \<Rightarrow> 'tx transaction_h \<Rightarrow> 'tx CBlock \<Rightarrow> Stream \<Rightarrow> error + 'tx CBlock \<times> Stream" where
  "CBlock_Unserialize S T b s0 =
     (case CBlockHeader_Unserialize b s0 of
        Inl e \<Rightarrow> Inl e
      | Inr (b1, s1) \<Rightarrow>
          if \<not> header_only S s1 then
            (case unser_vector S (on_stream (UnserializeTx T)) s1 of
               Inl e \<Rightarrow> Inl e
             | Inr (txs, s2) \<Rightarrow>
                 (let b2 = b1\<lparr>vtx := txs\<rparr> in
                  if CURRENT_VERSION \<le> sint (nVersion b2) then
                    (case unser_vector S unser_byte s2 of
                       Inl e \<Rightarrow> Inl e
                     | Inr (sig, s3) \<Rightarrow> Inr (b2\<lparr>vchBlockSig := sig\<rparr>, s3))
                  else Inr (b2, s2)))
          else Inr (b1\<lparr>vtx := [], vchBlockSig := []\<rparr>, s1))"

text \<open>
  Modelled from the spec: \<^verbatim>\<open>uint256.h\<close> is missing.  \<^verbatim>\<open>GetUint64(pos)\<close> is the
  64-bit word number \<open>pos\<close> of the hash, word 0 being ``the 64-bit low word''.
\<close>

definition GetUint64 :: "uint256 \<Rightarrow> nat \<Rightarrow> uint64_t" where
  "GetUint64 h pos = ucast (drop_bit (64 * pos) h)"

text \<open>
  \<^verbatim>\<open>CBlock::GetStakeEntropyBit\<close>.  The value of \<^verbatim>\<open>gArgs.GetBoolArg("-printstakemodifier",
  false)\<close> is the parameter \<open>printstakemodifier\<close>; the log is a list of records, and
  \<^verbatim>\<open>LogPrintf\<close> appends the record of its three arguments.
\<close>

datatype LogRecord = LogStakeEntropyBit uint32_t uint256 uint32_t

definition GetStakeEntropyBit ::
  "(byte list \<Rightarrow> uint256) \<Rightarrow> bool \<Rightarrow> LogRecord list \<Rightarrow> 'tx CBlock \<Rightarrow> uint32_t \<Rightarrow> uint32_t \<times> LogRecord list" where
  "GetStakeEntropyBit Hash printstakemodifier log b nTime' =
     (let nEntropyBit = (ucast (GetUint64 (GetHash Hash b) 0 AND 1) :: uint32_t) in
      if printstakemodifier
      then (nEntropyBit, log @ [LogStakeEntropyBit nTime' (GetHash Hash b) nEntropyBit])
      else (nEntropyBit, log))"

text \<open>
  \<^verbatim>\<open>CBlock::IsProofOfStake\<close>.  The first statement binds the reference \<^verbatim>\<open>tx\<close> to
  \<^verbatim>\<open>*vtx[1]\<close> and reads nothing through it; \<^verbatim>\<open>tx.IsCoinStake()\<close> is the right operand
  of \<^verbatim>\<open>&&\<close> and is evaluated only when \<^verbatim>\<open>vtx.size() > 1\<close> holds, where \<^verbatim>\<open>vtx[1]\<close> is
  an element of the vector.
\<close>

definition IsProofOfStake :: "'tx transaction_h \<Rightarrow> 'tx CBlock \<Rightarrow> bool" where
  "IsProofOfStake T b = (if 1 < length (vtx b) then IsCoinStake T (vtx b ! 1) else False)"

definition IsProofOfWork :: "'tx transaction_h \<Rightarrow> 'tx CBlock \<Rightarrow> bool" where
  "IsProofOfWork T b = (\<not> IsProofOfStake T b)"

text \<open>
  \<^verbatim>\<open>CBlock::GetProofOfStake\<close>.  The reference \<^verbatim>\<open>tx\<close> is bound in the same way and is
  used in the first branch of the conditional only, which is taken when
  \<^verbatim>\<open>IsProofOfStake()\<close> holds, so when \<^verbatim>\<open>vtx\<close> has a second element.  That branch reads
  \<^verbatim>\<open>tx.vin[0]\<close>.
\<close>

definition GetProofOfStake :: "'tx transaction_h \<Rightarrow> 'tx CBlock \<Rightarrow> error + COutPoint \<times> uint32_t" where
  "GetProofOfStake T b =
     (if IsProofOfStake T b then
        (case vector_at (tx_vin T (vtx b ! 1)) 0 of
           Inl e \<Rightarrow> Inl e
         | Inr txin \<Rightarrow> Inr (prevout txin, tx_nTime T (vtx b ! 1)))
      else Inr (COutPoint_null, 0))"

subsection \<open>CBlockLocator\<close>

record CBlockLocator =
  vHave :: "uint256 list"

text \<open>\<^verbatim>\<open>CBlockLocator::SerializationOp\<close>, writing.\<close>

definition CBlockLocator_Serialize :: "serialize_h \<Rightarrow> CBlockLocator \<Rightarrow> Stream \<Rightarrow> Stream" where
  "CBlockLocator_Serialize S l s0 =
     (let nVersion' = nStreamVersion s0;
          s1 = (if nType s0 AND SER_GETHASH S = 0 then ser_word 4 nVersion' s0 else s0)
      in ser_vector S (ser_word 32) (vHave l) s1)"

text \<open>
  \<^verbatim>\<open>CBlockLocator::SerializationOp\<close>, reading into the locator \<open>l\<close>.  The integer read
  goes to the local variable \<^verbatim>\<open>nVersion\<close>, which is not used afterwards.
\<close>

definition CBlockLocator_Unserialize :: "serialize_h \<Rightarrow> CBlockLocator \<Rightarrow> Stream \<Rightarrow> error + CBlockLocator \<times> Stream" where
  "CBlockLocator_Unserialize S l s0 =
     (let nVersion' = nStreamVersion s0 in
      case (if nType s0 AND SER_GETHASH S = 0
            then (unser_word 4 s0 :: error + int32_t \<times> Stream)
            else Inr (nVersion', s0)) of
        Inl e \<Rightarrow> Inl e
      | Inr (nVersion'', s1) \<Rightarrow>
          (case unser_vector S (unser_word 32) s1 of
             Inl e \<Rightarrow> Inl e
           | Inr (hs, s2) \<Rightarrow> Inr (l\<lparr>vHave := hs\<rparr>, s2)))"

definition CBlockLocator_SetNull :: "CBlockLocator \<Rightarrow> CBlockLocator" where
  "CBlockLocator_SetNull l = l\<lparr>vHave := []\<rparr>"

definition CBlockLocator_IsNull :: "CBlockLocator \<Rightarrow> bool" where
  "CBlockLocator_IsNull l = (vHave l = [])"

subsection \<open>An instance of the parameters\<close>

text \<open>
  A small instance of everything the model takes as a parameter, on which the functions
  above can be evaluated: the flags \<^verbatim>\<open>SER_GETHASH = 1 << 2\<close> and
  \<^verbatim>\<open>SER_BLOCKHEADERONLY = 1 << 17\<close>, a length prefix of one byte, transactions that are
  a single byte (a transaction is a stake transaction when that byte is 1, it has one
  input, and its time is the byte), and a hash that reads the first 32 bytes of its
  argument as a number.
\<close>

definition ReadByteSize :: "byte list \<Rightarrow> error + nat \<times> byte list" where
  "ReadByteSize bs = (case bs of [] \<Rightarrow> Inl ios_base_failure | b # rest \<Rightarrow> Inr (unat b, rest))"

definition byte_serialize_h :: serialize_h where
  "byte_serialize_h =
     \<lparr>SER_GETHASH = 4, SER_BLOCKHEADERONLY = 131072,
      WriteCompactSize = (\<lambda>k. [of_nat k]), ReadCompactSize = ReadByteSize\<rparr>"

definition ReadByteTx :: "byte list \<Rightarrow> error + byte \<times> byte list" where
  "ReadByteTx bs = (case bs of [] \<Rightarrow> Inl ios_base_failure | b # rest \<Rightarrow> Inr (b, rest))"

definition byte_transaction_h :: "byte transaction_h" where
  "byte_transaction_h =
     \<lparr>IsCoinStake = (\<lambda>tx. tx = 1),
      tx_vin = (\<lambda>tx. [\<lparr>prevout = \<lparr>outpoint_hash = ucast tx, outpoint_n = 0\<rparr>\<rparr>]),
      tx_nTime = (\<lambda>tx. ucast tx),
      SerializeTx = (\<lambda>tx. [tx]), UnserializeTx = ReadByteTx\<rparr>"

definition first_bytes_hash :: "byte list \<Rightarrow> uint256" where
  "first_bytes_hash bs = le_word (take 32 bs)"

text \<open>A stream of the network (\<^verbatim>\<open>SER_NETWORK = 1\<close>) and one for hashing, both empty.\<close>

definition network_stream :: Stream where
  "network_stream = \<lparr>nType = 1, nStreamVersion = 70015, vch = []\<rparr>"

definition gethash_stream :: Stream where
  "gethash_stream = \<lparr>nType = 4, nStreamVersion = 70015, vch = []\<rparr>"

text \<open>
  A block of version 1 with one transaction and a signature of one byte, and a block of
  version 3 with two transactions, the second of them a stake transaction.
\<close>

definition legacy_block :: "byte CBlock" where
  "legacy_block =
     \<lparr>nVersion = 1, hashPrevBlock = 0, hashMerkleRoot = 5, nTime = 1231006505,
      nBits = 486604799, nNonce = 7, vtx = [9], vchBlockSig = [170], fChecked = True\<rparr>"

definition stake_block :: "byte CBlock" where
  "stake_block =
     \<lparr>nVersion = 3, hashPrevBlock = 0, hashMerkleRoot = 5, nTime = 1231006505,
      nBits = 486604799, nNonce = 7, vtx = [9, 1], vchBlockSig = [170, 187], fChecked = False\<rparr>"

text \<open>
  The conditions on the parameters under which the properties of the codec are proved.
  \<open>reads_back rd wr v\<close>: what \<open>wr\<close> writes for \<open>v\<close> is read back by \<open>rd\<close> as \<open>v\<close>,
  whatever follows it.  \<open>extends rd\<close>: a read that succeeds does not depend on the
  bytes after those it has consumed.
\<close>

definition reads_back :: "(byte list \<Rightarrow> error + 'a \<times> byte list) \<Rightarrow> ('a \<Rightarrow> byte list) \<Rightarrow> 'a \<Rightarrow> bool" where
  "reads_back rd wr v = (\<forall>rest. rd (wr v @ rest) = Inr (v, rest))"

definition extends :: "(byte list \<Rightarrow> error + 'a \<times> byte list) \<Rightarrow> bool" where
  "extends rd = (\<forall>bs v rest ext. rd bs = Inr (v, rest) \<longrightarrow> rd (bs @ ext) = Inr (v, rest @ ext))"

text \<open>The same for a read on a stream: it is not changed by bytes written to the stream later.\<close>

definition stream_extends :: "(Stream \<Rightarrow> error + 'a \<times> Stream) \<Rightarrow> bool" where
  "stream_extends get =
     (\<forall>s v s' ext. get s = Inr (v, s') \<longrightarrow> get (stream_write ext s) = Inr (v, stream_write ext s'))"

text \<open>
  The layout of the full view in the words of the specification: ``header fields, then
  the transaction sequence, then -- only if \<^verbatim>\<open>version >= CURRENT_VERSION\<close> -- the
  signature byte sequence''.  It is compared with \<open>CBlock_Serialize\<close> below.
\<close>

definition full_view_bytes :: "serialize_h \<Rightarrow> 'tx transaction_h \<Rightarrow> 'tx CBlock \<Rightarrow> byte list" where
  "full_view_bytes S T b =
     header_range b @
     WriteCompactSize S (length (vtx b)) @ concat (map (SerializeTx T) (vtx b)) @
     (if CURRENT_VERSION \<le> sint (nVersion b)
      then WriteCompactSize S (length (vchBlockSig b)) @ vchBlockSig b else [])"

section \<open>Properties\<close>

subsection \<open>Construction\<close>

lemma CBlock_SetNull_new: "CBlock_SetNull b = CBlock_new"
  by (simp add: CBlock_SetNull_def CBlockHeader_SetNull_def CBlock_new_def)

lemma GetBlockHeader_of_header: "GetBlockHeader (CBlock_of_header h) = h"
  by (simp add: GetBlockHeader_def CBlock_of_header_def CBlock_new_def)

lemma IsNull_iff_nBits: "CBlockHeader_IsNull (h\<lparr>nBits := v\<rparr>) = (v = 0)"
  by (simp add: CBlockHeader_IsNull_def)

subsection \<open>Fixed-width integers\<close>

lemma length_le_bytes: "length (le_bytes k w) = k"
  by (induction k arbitrary: w) simp_all

lemma le_word_le_bytes_take_bit: "le_word (le_bytes k w) = take_bit (8 * k) w"
proof (induction k arbitrary: w)
  case 0
  show ?case by simp
next
  case (Suc k)
  show ?case
    apply (simp add: Suc)
    apply (rule bit_word_eqI)
    apply (auto simp: bit_simps)
    done
qed

lemma le_word_le_bytes: "LENGTH('a::len) \<le> 8 * k \<Longrightarrow> le_word (le_bytes k (w::'a word)) = w"
  by (simp add: le_word_le_bytes_take_bit take_bit_word_eq_self)

lemma ser_word_vch: "ser_word k w s = s\<lparr>vch := vch s @ le_bytes k w\<rparr>"
  by (simp add: ser_word_def stream_write_def)

lemma unser_word_le_bytes:
  "LENGTH('a::len) \<le> 8 * k \<Longrightarrow>
   unser_word k (s\<lparr>vch := le_bytes k (w::'a word) @ rest\<rparr>) = Inr (w, s\<lparr>vch := rest\<rparr>)"
  by (simp add: unser_word_def stream_read_def length_le_bytes le_word_le_bytes)

lemma unser_uint256_le_bytes:
  "unser_word 32 (s\<lparr>vch := le_bytes 32 (x::uint256) @ rest\<rparr>) = Inr (x, s\<lparr>vch := rest\<rparr>)"
  by (simp add: unser_word_le_bytes)

lemma nType_unser_word: "unser_word k s = Inr (w, s') \<Longrightarrow> nType s' = nType s"
  by (auto simp add: unser_word_def stream_read_def split: if_splits)

lemma stream_vch_same [simp]: "(s::Stream)\<lparr>vch := vch s\<rparr> = s"
  by simp

subsection \<open>What the writers append\<close>

lemma CBlockHeader_Serialize_vch:
  "CBlockHeader_Serialize h s = s\<lparr>vch := vch s @ header_range h\<rparr>"
  by (simp add: CBlockHeader_Serialize_def header_range_def ser_word_vch)

lemma length_header_range: "length (header_range h) = 80"
  by (simp add: header_range_def length_le_bytes)

lemma ser_elems_vch:
  assumes "\<And>x s. put x s = s\<lparr>vch := vch s @ enc x\<rparr>"
  shows "ser_elems put xs s = s\<lparr>vch := vch s @ concat (map enc xs)\<rparr>"
  by (induction xs arbitrary: s) (simp_all add: assms)

lemma ser_vector_vch:
  assumes "\<And>x s. put x s = s\<lparr>vch := vch s @ enc x\<rparr>"
  shows "ser_vector S put v s =
           s\<lparr>vch := vch s @ WriteCompactSize S (length v) @ concat (map enc v)\<rparr>"
  by (simp add: ser_vector_def ser_elems_vch [where enc = enc, OF assms] stream_write_def)

lemma ser_tx_vch: "ser_tx T tx s = s\<lparr>vch := vch s @ SerializeTx T tx\<rparr>"
  by (simp add: ser_tx_def stream_write_def)

lemma ser_byte_vch: "ser_byte b s = s\<lparr>vch := vch s @ [b]\<rparr>"
  by (simp add: ser_byte_def stream_write_def)

lemma concat_singletons: "concat (map (\<lambda>b. [b]) xs) = xs"
  by (induction xs) simp_all

lemma header_only_vch [simp]: "header_only S (s\<lparr>vch := bs\<rparr>) = header_only S s"
  by (simp add: header_only_def)

lemma header_only_stream_write [simp]: "header_only S (stream_write ext s) = header_only S s"
  by (simp add: header_only_def stream_write_def)

lemma CBlock_Serialize_full:
  "\<not> header_only S s \<Longrightarrow>
   CBlock_Serialize S T b s = s\<lparr>vch := vch s @ full_view_bytes S T b\<rparr>"
  by (simp add: CBlock_Serialize_def CBlockHeader_Serialize_vch full_view_bytes_def Let_def
      ser_vector_vch [where enc = "SerializeTx T", OF ser_tx_vch]
      ser_vector_vch [where enc = "\<lambda>b. [b]", OF ser_byte_vch] concat_singletons)

lemma CBlock_Serialize_header_only:
  "header_only S s \<Longrightarrow> CBlock_Serialize S T b s = s\<lparr>vch := vch s @ header_range b\<rparr>"
  by (simp add: CBlock_Serialize_def CBlockHeader_Serialize_vch Let_def)

lemma CBlockLocator_Serialize_vch:
  "CBlockLocator_Serialize S l s =
     s\<lparr>vch := vch s @ (if nType s AND SER_GETHASH S = 0 then le_bytes 4 (nStreamVersion s) else []) @
                WriteCompactSize S (length (vHave l)) @ concat (map (le_bytes 32) (vHave l))\<rparr>"
  by (simp add: CBlockLocator_Serialize_def Let_def ser_word_vch
      ser_vector_vch [where enc = "le_bytes 32", OF ser_word_vch])

subsection \<open>Reading back what was written\<close>

lemma CBlockHeader_Unserialize_header_range:
  "CBlockHeader_Unserialize t (s\<lparr>vch := header_range h @ rest\<rparr>) =
     Inr (t\<lparr>nVersion := nVersion h, hashPrevBlock := hashPrevBlock h,
            hashMerkleRoot := hashMerkleRoot h, nTime := nTime h, nBits := nBits h,
            nNonce := nNonce h\<rparr>, s\<lparr>vch := rest\<rparr>)"
  by (simp add: CBlockHeader_Unserialize_def header_range_def unser_word_le_bytes)

lemma CBlockHeader_Unserialize_long:
  assumes "80 \<le> length (vch s)"
  shows "\<exists>h. CBlockHeader_Unserialize t s = Inr (h, s\<lparr>vch := drop 80 (vch s)\<rparr>) \<and>
             CBlockHeader.more h = CBlockHeader.more t"
  using assms
  by (auto simp add: CBlockHeader_Unserialize_def unser_word_def stream_read_def)

lemma CBlockHeader_Unserialize_short:
  assumes "length (vch s) < 80"
  shows "CBlockHeader_Unserialize t s = Inl ios_base_failure"
  using assms
  by (auto simp add: CBlockHeader_Unserialize_def unser_word_def stream_read_def)

lemma nType_CBlockHeader_Unserialize:
  assumes "CBlockHeader_Unserialize t s = Inr (h, s')"
  shows "nType s' = nType s"
  using assms unfolding CBlockHeader_Unserialize_def
  by (auto split: sum.splits prod.splits dest!: nType_unser_word)

lemma unser_elems_concat:
  assumes "\<And>x rest s. x \<in> set xs \<Longrightarrow> get (s\<lparr>vch := enc x @ rest\<rparr>) = Inr (x, s\<lparr>vch := rest\<rparr>)"
  shows "unser_elems get (length xs) (s\<lparr>vch := concat (map enc xs) @ rest\<rparr>) =
           Inr (xs, s\<lparr>vch := rest\<rparr>)"
  using assms
proof (induction xs arbitrary: s)
  case Nil
  show ?case by simp
next
  case (Cons x xs)
  have "get (s\<lparr>vch := enc x @ concat (map enc xs) @ rest\<rparr>) =
          Inr (x, s\<lparr>vch := concat (map enc xs) @ rest\<rparr>)"
    using Cons.prems(1) [where x = x and s = s and rest = "concat (map enc xs) @ rest"] by simp
  moreover have "unser_elems get (length xs) (s\<lparr>vch := concat (map enc xs) @ rest\<rparr>) =
          Inr (xs, s\<lparr>vch := rest\<rparr>)"
    using Cons.IH Cons.prems by simp
  ultimately show ?case by simp
qed

lemma on_stream_reads_back:
  "reads_back rd wr v \<Longrightarrow> on_stream rd (s\<lparr>vch := wr v @ rest\<rparr>) = Inr (v, s\<lparr>vch := rest\<rparr>)"
  by (simp add: reads_back_def on_stream_def)

lemma unser_vector_reads_back:
  assumes "reads_back (ReadCompactSize S) (WriteCompactSize S) (length xs)"
    and "\<And>x rest s. x \<in> set xs \<Longrightarrow> get (s\<lparr>vch := enc x @ rest\<rparr>) = Inr (x, s\<lparr>vch := rest\<rparr>)"
  shows "unser_vector S get (s\<lparr>vch := WriteCompactSize S (length xs) @ concat (map enc xs) @ rest\<rparr>) =
           Inr (xs, s\<lparr>vch := rest\<rparr>)"
  using unser_elems_concat [where xs = xs and get = get and enc = enc and s = s and rest = rest, OF assms(2)]
  by (simp add: unser_vector_def on_stream_reads_back [OF assms(1)])

lemma unser_byte_cons: "unser_byte (s\<lparr>vch := [b] @ rest\<rparr>) = Inr (b, s\<lparr>vch := rest\<rparr>)"
  by (simp add: unser_byte_def stream_read_def)

lemma unser_bytes_reads_back:
  assumes "reads_back (ReadCompactSize S) (WriteCompactSize S) (length xs)"
  shows "unser_vector S unser_byte (s\<lparr>vch := WriteCompactSize S (length xs) @ xs @ rest\<rparr>) =
           Inr (xs, s\<lparr>vch := rest\<rparr>)"
  using unser_vector_reads_back [where get = unser_byte and enc = "\<lambda>b. [b]" and s = s and rest = rest, OF assms unser_byte_cons]
  by (simp add: concat_singletons)

lemma unser_txs_reads_back:
  assumes "reads_back (ReadCompactSize S) (WriteCompactSize S) (length xs)"
    and "\<And>x. x \<in> set xs \<Longrightarrow> reads_back (UnserializeTx T) (SerializeTx T) x"
  shows "unser_vector S (on_stream (UnserializeTx T))
           (s\<lparr>vch := WriteCompactSize S (length xs) @ concat (map (SerializeTx T) xs) @ rest\<rparr>) =
           Inr (xs, s\<lparr>vch := rest\<rparr>)"
  by (rule unser_vector_reads_back [OF assms(1)]) (simp add: on_stream_reads_back assms(2))

lemma CBlock_Unserialize_full:
  assumes full: "\<not> header_only S s"
    and sz: "reads_back (ReadCompactSize S) (WriteCompactSize S) (length (vtx b))"
    and txs: "\<And>x. x \<in> set (vtx b) \<Longrightarrow> reads_back (UnserializeTx T) (SerializeTx T) x"
    and sg: "CURRENT_VERSION \<le> sint (nVersion b) \<Longrightarrow>
               reads_back (ReadCompactSize S) (WriteCompactSize S) (length (vchBlockSig b))"
  shows "CBlock_Unserialize S T t (s\<lparr>vch := full_view_bytes S T b @ rest\<rparr>) =
           Inr (b\<lparr>vchBlockSig := (if CURRENT_VERSION \<le> sint (nVersion b) then vchBlockSig b
                                    else vchBlockSig t),
                  fChecked := fChecked t\<rparr>, s\<lparr>vch := rest\<rparr>)"
proof (cases "CURRENT_VERSION \<le> sint (nVersion b)")
  case True
  show ?thesis
    using full True
    by (simp add: CBlock_Unserialize_def full_view_bytes_def
        CBlockHeader_Unserialize_header_range unser_txs_reads_back [OF sz txs]
        unser_bytes_reads_back [OF sg [OF True]])
next
  case False
  show ?thesis
    using full False
    by (simp add: CBlock_Unserialize_def full_view_bytes_def
        CBlockHeader_Unserialize_header_range
        unser_txs_reads_back [OF sz txs, where rest = rest, simplified])
qed

lemma CBlock_Unserialize_header_only:
  assumes "header_only S s"
  shows "CBlock_Unserialize S T t s =
           (case CBlockHeader_Unserialize t s of
              Inl e \<Rightarrow> Inl e
            | Inr (h, s') \<Rightarrow> Inr (h\<lparr>vtx := [], vchBlockSig := []\<rparr>, s'))"
proof (cases "CBlockHeader_Unserialize t s")
  case (Inl e)
  then show ?thesis by (simp add: CBlock_Unserialize_def)
next
  case (Inr r)
  obtain h s' where r: "r = (h, s')" by (cases r)
  have "header_only S s'"
    using assms nType_CBlockHeader_Unserialize [of t s h s'] Inr r
    by (simp add: header_only_def)
  then show ?thesis
    using Inr r by (simp add: CBlock_Unserialize_def)
qed

lemma CBlockLocator_Unserialize_wire:
  assumes "nType s AND SER_GETHASH S = 0"
    and "reads_back (ReadCompactSize S) (WriteCompactSize S) (length hs)"
  shows "CBlockLocator_Unserialize S l
           (s\<lparr>vch := le_bytes 4 (v::int32_t) @ WriteCompactSize S (length hs) @
                      concat (map (le_bytes 32) hs) @ rest\<rparr>) =
           Inr (l\<lparr>vHave := hs\<rparr>, s\<lparr>vch := rest\<rparr>)"
  using assms(1)
  by (simp add: CBlockLocator_Unserialize_def unser_word_le_bytes
      unser_vector_reads_back [where get = "unser_word 32" and enc = "le_bytes 32",
        OF assms(2) unser_uint256_le_bytes])

lemma CBlockLocator_Unserialize_gethash:
  assumes "nType s AND SER_GETHASH S \<noteq> 0"
    and "reads_back (ReadCompactSize S) (WriteCompactSize S) (length hs)"
  shows "CBlockLocator_Unserialize S l
           (s\<lparr>vch := WriteCompactSize S (length hs) @ concat (map (le_bytes 32) hs) @ rest\<rparr>) =
           Inr (l\<lparr>vHave := hs\<rparr>, s\<lparr>vch := rest\<rparr>)"
  using assms(1)
  by (simp add: CBlockLocator_Unserialize_def
      unser_vector_reads_back [where get = "unser_word 32" and enc = "le_bytes 32",
        OF assms(2) unser_uint256_le_bytes])

subsection \<open>A read that succeeds ignores the bytes that follow\<close>

lemma stream_extendsI:
  assumes "\<And>s v s' ext. get s = Inr (v, s') \<Longrightarrow> get (stream_write ext s) = Inr (v, stream_write ext s')"
  shows "stream_extends get"
  using assms unfolding stream_extends_def by blast

lemma stream_extendsD:
  "stream_extends get \<Longrightarrow> get s = Inr (v, s') \<Longrightarrow> get (stream_write ext s) = Inr (v, stream_write ext s')"
  unfolding stream_extends_def by blast

lemma stream_read_extends: "stream_extends (stream_read k)"
  by (rule stream_extendsI) (auto simp add: stream_read_def stream_write_def split: if_splits)

lemma unser_word_extends: "stream_extends (unser_word k)"
proof (rule stream_extendsI)
  fix s s' ext and v :: "'a word"
  assume "unser_word k s = Inr (v, s')"
  then obtain bs where "stream_read k s = Inr (bs, s')" "v = le_word bs"
    by (auto simp add: unser_word_def split: sum.splits)
  then show "unser_word k (stream_write ext s) = Inr (v, stream_write ext s')"
    using stream_extendsD [OF stream_read_extends, of k s bs s' ext]
    by (simp add: unser_word_def)
qed

lemma unser_byte_extends: "stream_extends unser_byte"
proof (rule stream_extendsI)
  fix s s' ext and v :: byte
  assume "unser_byte s = Inr (v, s')"
  then obtain bs where "stream_read 1 s = Inr (bs, s')" "v = hd bs"
    by (auto simp add: unser_byte_def split: sum.splits)
  then show "unser_byte (stream_write ext s) = Inr (v, stream_write ext s')"
    using stream_extendsD [OF stream_read_extends, of 1 s bs s' ext]
    by (simp add: unser_byte_def)
qed

lemma on_stream_extends:
  assumes "extends rd"
  shows "stream_extends (on_stream rd)"
proof (rule stream_extendsI)
  fix s s' ext v
  assume "on_stream rd s = Inr (v, s')"
  then obtain rest where r: "rd (vch s) = Inr (v, rest)" "s' = s\<lparr>vch := rest\<rparr>"
    by (auto simp add: on_stream_def split: sum.splits)
  then have "rd (vch s @ ext) = Inr (v, rest @ ext)"
    using assms unfolding extends_def by blast
  then show "on_stream rd (stream_write ext s) = Inr (v, stream_write ext s')"
    using r by (simp add: on_stream_def stream_write_def)
qed

lemma unser_elems_extends:
  assumes "stream_extends get"
  shows "stream_extends (unser_elems get k)"
proof (rule stream_extendsI)
  fix s s' ext xs
  assume "unser_elems get k s = Inr (xs, s')"
  then show "unser_elems get k (stream_write ext s) = Inr (xs, stream_write ext s')"
  proof (induction k arbitrary: s xs)
    case 0
    then show ?case by simp
  next
    case (Suc k)
    from Suc.prems obtain x s1 ys where
      g: "get s = Inr (x, s1)" and u: "unser_elems get k s1 = Inr (ys, s')" and x: "xs = x # ys"
      by (auto split: sum.splits)
    have "get (stream_write ext s) = Inr (x, stream_write ext s1)"
      using stream_extendsD [OF assms g] .
    moreover have "unser_elems get k (stream_write ext s1) = Inr (ys, stream_write ext s')"
      using Suc.IH [OF u] .
    ultimately show ?case using x by simp
  qed
qed

lemma unser_vector_extends:
  assumes "extends (ReadCompactSize S)" and "stream_extends get"
  shows "stream_extends (unser_vector S get)"
proof (rule stream_extendsI)
  fix s s' ext xs
  assume "unser_vector S get s = Inr (xs, s')"
  then obtain k s1 where
    r: "on_stream (ReadCompactSize S) s = Inr (k, s1)" and u: "unser_elems get k s1 = Inr (xs, s')"
    by (auto simp add: unser_vector_def split: sum.splits)
  have "on_stream (ReadCompactSize S) (stream_write ext s) = Inr (k, stream_write ext s1)"
    using stream_extendsD [OF on_stream_extends [OF assms(1)] r] .
  moreover have "unser_elems get k (stream_write ext s1) = Inr (xs, stream_write ext s')"
    using stream_extendsD [OF unser_elems_extends [OF assms(2)] u] .
  ultimately show "unser_vector S get (stream_write ext s) = Inr (xs, stream_write ext s')"
    by (simp add: unser_vector_def)
qed

lemma CBlockHeader_Unserialize_extends: "stream_extends (CBlockHeader_Unserialize t)"
proof (rule stream_extendsI)
  fix s s' ext and h :: "'a CBlockHeader_scheme"
  assume a: "CBlockHeader_Unserialize t s = Inr (h, s')"
  then obtain v p m ti b c s1 s2 s3 s4 s5 where
    r: "unser_word 4 s = Inr (v :: int32_t, s1)" "unser_word 32 s1 = Inr (p :: uint256, s2)"
       "unser_word 32 s2 = Inr (m :: uint256, s3)" "unser_word 4 s3 = Inr (ti :: uint32_t, s4)"
       "unser_word 4 s4 = Inr (b :: uint32_t, s5)" "unser_word 4 s5 = Inr (c :: uint32_t, s')"
    and h: "h = t\<lparr>nVersion := v, hashPrevBlock := p, hashMerkleRoot := m,
                   nTime := ti, nBits := b, nNonce := c\<rparr>"
    unfolding CBlockHeader_Unserialize_def
    by (auto split: sum.splits)
  show "CBlockHeader_Unserialize t (stream_write ext s) = Inr (h, stream_write ext s')"
    using r [THEN stream_extendsD [OF unser_word_extends], of ext] h
    by (simp add: CBlockHeader_Unserialize_def)
qed

lemma CBlock_Unserialize_extends:
  assumes "extends (ReadCompactSize S)" and "extends (UnserializeTx T)"
  shows "stream_extends (CBlock_Unserialize S T t)"
proof (rule stream_extendsI)
  fix s s' ext and b' :: "'a CBlock"
  assume a: "CBlock_Unserialize S T t s = Inr (b', s')"
  then obtain b1 s1 where h: "CBlockHeader_Unserialize t s = Inr (b1, s1)"
    by (auto simp add: CBlock_Unserialize_def split: sum.splits)
  have h': "CBlockHeader_Unserialize t (stream_write ext s) = Inr (b1, stream_write ext s1)"
    using stream_extendsD [OF CBlockHeader_Unserialize_extends h] .
  show "CBlock_Unserialize S T t (stream_write ext s) = Inr (b', stream_write ext s')"
  proof (cases "header_only S s1")
    case True
    then show ?thesis
      using a h h' by (simp add: CBlock_Unserialize_def)
  next
    case False
    from a h False obtain txs s2 where
      x: "unser_vector S (on_stream (UnserializeTx T)) s1 = Inr (txs, s2)"
      by (auto simp add: CBlock_Unserialize_def split: sum.splits)
    have x': "unser_vector S (on_stream (UnserializeTx T)) (stream_write ext s1) =
                Inr (txs, stream_write ext s2)"
      using stream_extendsD [OF unser_vector_extends [OF assms(1) on_stream_extends [OF assms(2)]] x] .
    show ?thesis
    proof (cases "CURRENT_VERSION \<le> sint (nVersion b1)")
      case True
      from a h False x True obtain sig where
        g: "unser_vector S unser_byte s2 = Inr (sig, s')" and b: "b' = b1\<lparr>vtx := txs, vchBlockSig := sig\<rparr>"
        by (auto simp add: CBlock_Unserialize_def Let_def split: sum.splits)
      have "unser_vector S unser_byte (stream_write ext s2) = Inr (sig, stream_write ext s')"
        using stream_extendsD [OF unser_vector_extends [OF assms(1) unser_byte_extends] g] .
      then show ?thesis
        using h' x' False True b by (simp add: CBlock_Unserialize_def Let_def)
    next
      case v: False
      from a h False x v have "b' = b1\<lparr>vtx := txs\<rparr>" "s' = s2"
        by (auto simp add: CBlock_Unserialize_def Let_def)
      then show ?thesis
        using h' x' False v by (simp add: CBlock_Unserialize_def Let_def)
    qed
  qed
qed

lemma truncated_stream_fails:
  assumes "stream_extends get"
    and "get (s\<lparr>vch := p @ q\<rparr>) = Inr (v, s\<lparr>vch := []\<rparr>)"
    and "q \<noteq> []"
  shows "\<exists>e. get (s\<lparr>vch := p\<rparr>) = Inl e"
proof (cases "get (s\<lparr>vch := p\<rparr>)")
  case (Inl e)
  then show ?thesis by blast
next
  case (Inr r)
  obtain v' s' where "r = (v', s')" by (cases r)
  then have "get (stream_write q (s\<lparr>vch := p\<rparr>)) = Inr (v', stream_write q s')"
    using stream_extendsD [OF assms(1), of "s\<lparr>vch := p\<rparr>" v' s' q] Inr by simp
  then have "Inr (v', stream_write q s') = Inr (v, s\<lparr>vch := []\<rparr>)"
    using assms(2) by (simp add: stream_write_def)
  then have "vch (stream_write q s') = vch (s\<lparr>vch := []\<rparr>)"
    by simp
  then have "q = []"
    by (simp add: stream_write_def)
  then show ?thesis using assms(3) by simp
qed

subsection \<open>Proof-of-stake tests by number of transactions\<close>

lemma IsProofOfStake_iff:
  "IsProofOfStake T b \<longleftrightarrow> 1 < length (vtx b) \<and> IsCoinStake T (vtx b ! 1)"
  by (simp add: IsProofOfStake_def)

lemma IsProofOfStake_short: "length (vtx b) < 2 \<Longrightarrow> \<not> IsProofOfStake T b"
  by (simp add: IsProofOfStake_def)

lemma proof_of_stake_or_work: "IsProofOfStake T b \<noteq> IsProofOfWork T b"
  by (simp add: IsProofOfWork_def)

subsection \<open>The instance of the parameters\<close>

lemma byte_sizes_read_back:
  "k < 256 \<Longrightarrow> reads_back (ReadCompactSize byte_serialize_h) (WriteCompactSize byte_serialize_h) k"
  by (simp add: reads_back_def byte_serialize_h_def ReadByteSize_def unat_of_nat take_bit_nat_eq_self)

lemma byte_txs_read_back:
  "reads_back (UnserializeTx byte_transaction_h) (SerializeTx byte_transaction_h) tx"
  by (simp add: reads_back_def byte_transaction_h_def ReadByteTx_def)

lemma network_stream_full: "\<not> header_only byte_serialize_h network_stream"
  by (simp add: header_only_def byte_serialize_h_def network_stream_def)

lemma gethash_stream_header_only: "header_only byte_serialize_h gethash_stream"
  by (simp add: header_only_def byte_serialize_h_def gethash_stream_def)

lemma network_stream_wire: "nType network_stream AND SER_GETHASH byte_serialize_h = 0"
  by (simp add: network_stream_def byte_serialize_h_def)

lemma gethash_stream_gethash: "nType gethash_stream AND SER_GETHASH byte_serialize_h \<noteq> 0"
  by (simp add: gethash_stream_def byte_serialize_h_def)

lemma vch_network_stream: "vch network_stream = []"
  by (simp add: network_stream_def)

lemma ReadByteSize_extends: "extends (ReadCompactSize byte_serialize_h)"
  by (auto simp add: extends_def byte_serialize_h_def ReadByteSize_def split: list.splits)

lemma ReadByteTx_extends: "extends (UnserializeTx byte_transaction_h)"
  by (auto simp add: extends_def byte_transaction_h_def ReadByteTx_def split: list.splits)

subsection \<open>Hashing\<close>

text \<open>
  Claim C1.  \<open>GetHash\<close> of a block, and of a block header, is a function of the six
  header fields only: two objects that agree on \<open>nVersion\<close>, \<open>hashPrevBlock\<close>,
  \<open>hashMerkleRoot\<close>, \<open>nTime\<close>, \<open>nBits\<close> and \<open>nNonce\<close> have the same hash, whatever
  else they hold; replacing the transactions and the signature of a block leaves its
  hash unchanged; and the hash of a block is the hash of its header.
\<close>

theorem GetHash_header_fields_only:
  fixes b1 :: "'a CBlockHeader_scheme" and b2 :: "'b CBlockHeader_scheme" and b :: "'tx CBlock"
  assumes "nVersion b1 = nVersion b2" and "hashPrevBlock b1 = hashPrevBlock b2"
    and "hashMerkleRoot b1 = hashMerkleRoot b2" and "nTime b1 = nTime b2"
    and "nBits b1 = nBits b2" and "nNonce b1 = nNonce b2"
  shows "GetHash Hash b1 = GetHash Hash b2 \<and>
         GetHash Hash (b\<lparr>vtx := txs, vchBlockSig := sig\<rparr>) = GetHash Hash b \<and>
         GetHash Hash (GetBlockHeader b) = GetHash Hash b"
  using assms by (simp add: GetHash_def header_range_def GetBlockHeader_def)

theorem GetHash_header_fields_only_witness:
  "nVersion legacy_block = nVersion (GetBlockHeader legacy_block) \<and>
   hashPrevBlock legacy_block = hashPrevBlock (GetBlockHeader legacy_block) \<and>
   hashMerkleRoot legacy_block = hashMerkleRoot (GetBlockHeader legacy_block) \<and>
   nTime legacy_block = nTime (GetBlockHeader legacy_block) \<and>
   nBits legacy_block = nBits (GetBlockHeader legacy_block) \<and>
   nNonce legacy_block = nNonce (GetBlockHeader legacy_block) \<and>
   GetHash first_bytes_hash legacy_block = GetHash first_bytes_hash (GetBlockHeader legacy_block) \<and>
   GetHash first_bytes_hash (legacy_block\<lparr>vtx := [], vchBlockSig := [1, 2]\<rparr>) =
     GetHash first_bytes_hash legacy_block"
proof -
  have h: "nVersion legacy_block = nVersion (GetBlockHeader legacy_block)"
    "hashPrevBlock legacy_block = hashPrevBlock (GetBlockHeader legacy_block)"
    "hashMerkleRoot legacy_block = hashMerkleRoot (GetBlockHeader legacy_block)"
    "nTime legacy_block = nTime (GetBlockHeader legacy_block)"
    "nBits legacy_block = nBits (GetBlockHeader legacy_block)"
    "nNonce legacy_block = nNonce (GetBlockHeader legacy_block)"
    by (simp_all add: GetBlockHeader_def)
  show ?thesis
    using h GetHash_header_fields_only [OF h, where Hash = first_bytes_hash
        and b = legacy_block and txs = "[]" and sig = "[1, 2]"]
    by blast
qed

text \<open>
  Claim C8.  For every block and every time argument, \<open>GetStakeEntropyBit\<close> returns the
  least significant bit of the low 64-bit word of \<open>GetHash\<close>, so 0 or 1, and it returns
  the same value whether the flag \<open>-printstakemodifier\<close> is set or not.
\<close>

theorem GetStakeEntropyBit_low_bit:
  "fst (GetStakeEntropyBit Hash p log b t) = of_bool (bit (GetUint64 (GetHash Hash b) 0) 0) \<and>
   fst (GetStakeEntropyBit Hash p log b t) \<in> {0, 1} \<and>
   fst (GetStakeEntropyBit Hash True log b t) = fst (GetStakeEntropyBit Hash False log b t)"
  by (simp add: GetStakeEntropyBit_def Let_def and_one_eq mod_2_eq_odd bit_0 of_bool_def)

subsection \<open>Proof-of-stake and proof-of-work\<close>

text \<open>
  Claim C2.  A block whose transaction list holds exactly one transaction is
  proof-of-work: \<open>IsProofOfStake\<close> returns false and \<open>IsProofOfWork\<close> returns true,
  whatever that transaction is.
\<close>

theorem one_transaction_is_proof_of_work:
  assumes "length (vtx b) = 1"
  shows "IsProofOfStake T b = False \<and> IsProofOfWork T b = True"
  using assms by (simp add: IsProofOfStake_def IsProofOfWork_def)

theorem one_transaction_is_proof_of_work_witness:
  "length (vtx (legacy_block\<lparr>vtx := [1]\<rparr>)) = 1 \<and>
   IsCoinStake byte_transaction_h 1 \<and>
   IsProofOfStake byte_transaction_h (legacy_block\<lparr>vtx := [1]\<rparr>) = False \<and>
   IsProofOfWork byte_transaction_h (legacy_block\<lparr>vtx := [1]\<rparr>) = True"
proof -
  have l: "length (vtx (legacy_block\<lparr>vtx := [1]\<rparr>)) = 1"
    by simp
  have c: "IsCoinStake byte_transaction_h 1"
    by (simp add: byte_transaction_h_def)
  show ?thesis
    using one_transaction_is_proof_of_work [OF l, of byte_transaction_h] l c by blast
qed

text \<open>
  Claim C6.  For a block with a non-empty transaction list: if the block is
  proof-of-stake, it has a second transaction and \<open>GetProofOfStake\<close> returns the outpoint
  of the first input of that transaction together with the transaction's time (the
  first input being there, as the claim takes it to be); if the block is proof-of-work,
  \<open>GetProofOfStake\<close> returns the null outpoint and 0.
\<close>

theorem GetProofOfStake_by_kind:
  assumes "vtx b \<noteq> []"
  shows "(IsProofOfStake T b \<longrightarrow> 1 < length (vtx b)) \<and>
         (IsProofOfStake T b \<and> tx_vin T (vtx b ! 1) \<noteq> [] \<longrightarrow>
            GetProofOfStake T b =
              Inr (prevout (tx_vin T (vtx b ! 1) ! 0), tx_nTime T (vtx b ! 1))) \<and>
         (IsProofOfWork T b \<longrightarrow> GetProofOfStake T b = Inr (COutPoint_null, 0))"
  by (auto simp add: GetProofOfStake_def IsProofOfWork_def IsProofOfStake_iff vector_at_def)

theorem GetProofOfStake_by_kind_witness:
  "vtx stake_block \<noteq> [] \<and>
   IsProofOfStake byte_transaction_h stake_block \<and>
   tx_vin byte_transaction_h (vtx stake_block ! 1) \<noteq> [] \<and>
   GetProofOfStake byte_transaction_h stake_block =
     Inr (\<lparr>outpoint_hash = 1, outpoint_n = 0\<rparr>, 1) \<and>
   vtx legacy_block \<noteq> [] \<and>
   IsProofOfWork byte_transaction_h legacy_block \<and>
   GetProofOfStake byte_transaction_h legacy_block = Inr (COutPoint_null, 0)"
proof -
  have s: "vtx stake_block \<noteq> []" "IsProofOfStake byte_transaction_h stake_block"
    "tx_vin byte_transaction_h (vtx stake_block ! 1) \<noteq> []"
    by (simp_all add: stake_block_def IsProofOfStake_def byte_transaction_h_def)
  have v: "prevout (tx_vin byte_transaction_h (vtx stake_block ! 1) ! 0) =
             \<lparr>outpoint_hash = 1, outpoint_n = 0\<rparr>"
    "tx_nTime byte_transaction_h (vtx stake_block ! 1) = 1"
    by (simp_all add: stake_block_def byte_transaction_h_def)
  have w: "vtx legacy_block \<noteq> []" "IsProofOfWork byte_transaction_h legacy_block"
    by (simp_all add: legacy_block_def IsProofOfWork_def IsProofOfStake_def)
  show ?thesis
    using GetProofOfStake_by_kind [OF s(1), of byte_transaction_h]
      GetProofOfStake_by_kind [OF w(1), of byte_transaction_h] s w
    unfolding v by blast
qed

subsection \<open>The full view of a block\<close>

text \<open>
  Claim C3.  Round trip of the full view.  Take a block whose signature is empty whenever
  its version is below \<open>CURRENT_VERSION\<close>, and a codec of the length prefix and of the
  transactions that reads back the two lengths and the transactions of this block.
  Writing the block to an empty stream that is neither for hashing nor header-only, and
  reading that stream into a new block, gives the same six header fields, the same
  transactions and the same signature, and consumes the stream; the flag \<open>fChecked\<close>,
  which is not written, is that of the new block.
\<close>

theorem full_view_round_trip:
  assumes "sint (nVersion b) < CURRENT_VERSION \<longrightarrow> vchBlockSig b = []"
    and "\<not> header_only S s"
    and "reads_back (ReadCompactSize S) (WriteCompactSize S) (length (vtx b))"
    and "reads_back (ReadCompactSize S) (WriteCompactSize S) (length (vchBlockSig b))"
    and "\<forall>tx \<in> set (vtx b). reads_back (UnserializeTx T) (SerializeTx T) tx"
  shows "CBlock_Unserialize S T CBlock_new (CBlock_Serialize S T b (s\<lparr>vch := []\<rparr>)) =
           Inr (b\<lparr>fChecked := False\<rparr>, s\<lparr>vch := []\<rparr>)"
proof -
  have "CBlock_Unserialize S T CBlock_new (s\<lparr>vch := full_view_bytes S T b @ []\<rparr>) =
          Inr (b\<lparr>vchBlockSig := (if CURRENT_VERSION \<le> sint (nVersion b) then vchBlockSig b
                                   else vchBlockSig (CBlock_new :: 'a CBlock)),
                 fChecked := fChecked (CBlock_new :: 'a CBlock)\<rparr>, s\<lparr>vch := []\<rparr>)"
    using assms by (intro CBlock_Unserialize_full) simp_all
  moreover have "b\<lparr>vchBlockSig := (if CURRENT_VERSION \<le> sint (nVersion b) then vchBlockSig b
                                   else vchBlockSig (CBlock_new :: 'a CBlock)),
                 fChecked := fChecked (CBlock_new :: 'a CBlock)\<rparr> = b\<lparr>fChecked := False\<rparr>"
    using assms(1) by (simp add: CBlock_new_def)
  ultimately show ?thesis
    using assms(2) by (simp add: CBlock_Serialize_full)
qed

theorem full_view_round_trip_witness:
  "CURRENT_VERSION \<le> sint (nVersion stake_block) \<and>
   vchBlockSig stake_block = [170, 187] \<and>
   \<not> header_only byte_serialize_h network_stream \<and>
   reads_back (ReadCompactSize byte_serialize_h) (WriteCompactSize byte_serialize_h)
     (length (vtx stake_block)) \<and>
   reads_back (ReadCompactSize byte_serialize_h) (WriteCompactSize byte_serialize_h)
     (length (vchBlockSig stake_block)) \<and>
   reads_back (UnserializeTx byte_transaction_h) (SerializeTx byte_transaction_h) 9 \<and>
   reads_back (UnserializeTx byte_transaction_h) (SerializeTx byte_transaction_h) 1 \<and>
   CBlock_Unserialize byte_serialize_h byte_transaction_h CBlock_new
     (CBlock_Serialize byte_serialize_h byte_transaction_h stake_block network_stream) =
     Inr (stake_block, network_stream)"
proof -
  have c: "CURRENT_VERSION \<le> sint (nVersion stake_block)" "vchBlockSig stake_block = [170, 187]"
    by (simp_all add: stake_block_def CURRENT_VERSION_def)
  then have v: "sint (nVersion stake_block) < CURRENT_VERSION \<longrightarrow> vchBlockSig stake_block = []"
    by simp
  have k1: "reads_back (ReadCompactSize byte_serialize_h) (WriteCompactSize byte_serialize_h)
     (length (vtx stake_block))"
    by (simp add: byte_sizes_read_back stake_block_def)
  have k2: "reads_back (ReadCompactSize byte_serialize_h) (WriteCompactSize byte_serialize_h)
     (length (vchBlockSig stake_block))"
    by (simp add: byte_sizes_read_back stake_block_def)
  have t: "\<forall>tx \<in> set (vtx stake_block).
      reads_back (UnserializeTx byte_transaction_h) (SerializeTx byte_transaction_h) tx"
    by (simp add: byte_txs_read_back)
  have e: "network_stream\<lparr>vch := []\<rparr> = network_stream" "stake_block\<lparr>fChecked := False\<rparr> = stake_block"
    by (simp_all add: network_stream_def stake_block_def)
  show ?thesis
    using full_view_round_trip [OF v network_stream_full k1 k2 t] c k1 k2 network_stream_full
      byte_txs_read_back [of 9] byte_txs_read_back [of 1]
    by (simp only: e simp_thms)
qed

text \<open>
  Claim C4.  Version gating of the signature.  For a block whose version is below
  \<open>CURRENT_VERSION\<close> (as \<open>LEGACY_VERSION_1\<close> is), the full view writes the header, the
  length of the transaction list and the transactions, and nothing else: what is written
  does not depend on the signature the block holds.  Reading what was written into a new
  block gives the header fields and the transactions of the block with an empty
  signature.
\<close>

theorem legacy_version_omits_signature:
  assumes "sint (nVersion b) < CURRENT_VERSION"
    and "\<not> header_only S s"
    and "reads_back (ReadCompactSize S) (WriteCompactSize S) (length (vtx b))"
    and "\<forall>tx \<in> set (vtx b). reads_back (UnserializeTx T) (SerializeTx T) tx"
  shows "CBlock_Serialize S T b (s\<lparr>vch := []\<rparr>) =
           s\<lparr>vch := header_range b @ WriteCompactSize S (length (vtx b)) @
                      concat (map (SerializeTx T) (vtx b))\<rparr> \<and>
         CBlock_Serialize S T (b\<lparr>vchBlockSig := sig\<rparr>) s = CBlock_Serialize S T b s \<and>
         CBlock_Unserialize S T CBlock_new (CBlock_Serialize S T b (s\<lparr>vch := []\<rparr>)) =
           Inr (b\<lparr>vchBlockSig := [], fChecked := False\<rparr>, s\<lparr>vch := []\<rparr>)"
proof -
  have w: "CBlock_Serialize S T b (s\<lparr>vch := []\<rparr>) = s\<lparr>vch := full_view_bytes S T b\<rparr>"
    using assms(2) by (simp add: CBlock_Serialize_full)
  have l: "full_view_bytes S T b =
      header_range b @ WriteCompactSize S (length (vtx b)) @ concat (map (SerializeTx T) (vtx b))"
    using assms(1) by (simp add: full_view_bytes_def)
  have i: "CBlock_Serialize S T (b\<lparr>vchBlockSig := sig\<rparr>) s = CBlock_Serialize S T b s"
    using assms(1,2) by (simp add: CBlock_Serialize_full full_view_bytes_def header_range_def)
  have "CBlock_Unserialize S T CBlock_new (s\<lparr>vch := full_view_bytes S T b @ []\<rparr>) =
          Inr (b\<lparr>vchBlockSig := (if CURRENT_VERSION \<le> sint (nVersion b) then vchBlockSig b
                                   else vchBlockSig (CBlock_new :: 'a CBlock)),
                 fChecked := fChecked (CBlock_new :: 'a CBlock)\<rparr>, s\<lparr>vch := []\<rparr>)"
    using assms by (intro CBlock_Unserialize_full) simp_all
  then have r: "CBlock_Unserialize S T CBlock_new (s\<lparr>vch := full_view_bytes S T b\<rparr>) =
          Inr (b\<lparr>vchBlockSig := [], fChecked := False\<rparr>, s\<lparr>vch := []\<rparr>)"
    using assms(1) by (simp add: CBlock_new_def)
  show ?thesis
    using w l i r by simp
qed

theorem legacy_version_omits_signature_witness:
  "sint (nVersion legacy_block) = LEGACY_VERSION_1 \<and>
   vchBlockSig legacy_block = [170] \<and>
   CBlock_Serialize byte_serialize_h byte_transaction_h legacy_block network_stream =
     network_stream\<lparr>vch := header_range legacy_block @ [1, 9]\<rparr> \<and>
   CBlock_Unserialize byte_serialize_h byte_transaction_h CBlock_new
     (CBlock_Serialize byte_serialize_h byte_transaction_h legacy_block network_stream) =
     Inr (legacy_block\<lparr>vchBlockSig := [], fChecked := False\<rparr>, network_stream)"
proof -
  have c: "sint (nVersion legacy_block) = LEGACY_VERSION_1" "vchBlockSig legacy_block = [170]"
    by (simp_all add: legacy_block_def LEGACY_VERSION_1_def)
  have v: "sint (nVersion legacy_block) < CURRENT_VERSION"
    by (simp add: legacy_block_def CURRENT_VERSION_def)
  have k: "reads_back (ReadCompactSize byte_serialize_h) (WriteCompactSize byte_serialize_h)
     (length (vtx legacy_block))"
    by (simp add: byte_sizes_read_back legacy_block_def)
  have t: "\<forall>tx \<in> set (vtx legacy_block).
      reads_back (UnserializeTx byte_transaction_h) (SerializeTx byte_transaction_h) tx"
    by (simp add: byte_txs_read_back)
  have e: "network_stream\<lparr>vch := []\<rparr> = network_stream"
    by (simp add: network_stream_def)
  have b: "WriteCompactSize byte_serialize_h (length (vtx legacy_block)) @
             concat (map (SerializeTx byte_transaction_h) (vtx legacy_block)) = [1, 9]"
    by (simp add: legacy_block_def byte_serialize_h_def byte_transaction_h_def)
  show ?thesis
    using legacy_version_omits_signature [OF v network_stream_full k t, of "[]"] c
    unfolding e b by blast
qed

text \<open>
  Claim C9, as stated, fails.  The block \<open>legacy_block\<close> has version 1; the stream holds
  its full-view encoding followed by the two bytes \<open>[1, 170]\<close>, which are the encoding
  of its signature \<open>[170]\<close>.  Reading succeeds: it returns the block with an empty
  signature and leaves the two bytes in the stream.
\<close>

theorem full_view_trailing_bytes_accepted:
  "CBlock_Unserialize byte_serialize_h byte_transaction_h CBlock_new
     (stream_write [1, 170]
        (CBlock_Serialize byte_serialize_h byte_transaction_h legacy_block network_stream)) =
     Inr (legacy_block\<lparr>vchBlockSig := [], fChecked := False\<rparr>, network_stream\<lparr>vch := [1, 170]\<rparr>)"
proof -
  have k: "reads_back (ReadCompactSize byte_serialize_h) (WriteCompactSize byte_serialize_h)
     (length (vtx legacy_block))"
    by (simp add: byte_sizes_read_back legacy_block_def)
  have v: "\<not> CURRENT_VERSION \<le> sint (nVersion legacy_block)"
    by (simp add: legacy_block_def CURRENT_VERSION_def)
  have w: "stream_write [1, 170]
        (CBlock_Serialize byte_serialize_h byte_transaction_h legacy_block network_stream) =
      network_stream\<lparr>vch := full_view_bytes byte_serialize_h byte_transaction_h legacy_block @
                               [1, 170]\<rparr>"
    by (simp add: CBlock_Serialize_full network_stream_full stream_write_def vch_network_stream)
  show ?thesis
    using CBlock_Unserialize_full [OF network_stream_full k byte_txs_read_back,
        where t = CBlock_new and rest = "[1, 170]"] v
    by (simp add: w CBlock_new_def)
qed

text \<open>
  Claim C9, amended.  Reading a block in the full view fails on every truncated stream,
  that is, on every proper prefix of the full-view encoding of a block; in particular on
  the encoding without its signature of a block whose version is \<open>CURRENT_VERSION\<close> or
  above.  Reading stops after the fields the version licenses: whatever follows them in
  the stream is left there, and the read succeeds.  The codec of the length prefix and of
  the transactions is assumed to read back what it writes for this block, and not to
  depend on the bytes after those it consumes.
\<close>

theorem full_view_decoding_failures:
  assumes "\<not> header_only S s"
    and "reads_back (ReadCompactSize S) (WriteCompactSize S) (length (vtx b))"
    and "CURRENT_VERSION \<le> sint (nVersion b) \<longrightarrow>
           reads_back (ReadCompactSize S) (WriteCompactSize S) (length (vchBlockSig b))"
    and "\<forall>tx \<in> set (vtx b). reads_back (UnserializeTx T) (SerializeTx T) tx"
    and "extends (ReadCompactSize S)"
    and "extends (UnserializeTx T)"
  shows "(vch (CBlock_Serialize S T b (s\<lparr>vch := []\<rparr>)) = p @ q \<and> q \<noteq> [] \<longrightarrow>
            (\<exists>e. CBlock_Unserialize S T t (s\<lparr>vch := p\<rparr>) = Inl e)) \<and>
         (CURRENT_VERSION \<le> sint (nVersion b) \<and>
          WriteCompactSize S (length (vchBlockSig b)) \<noteq> [] \<longrightarrow>
            (\<exists>e. CBlock_Unserialize S T t
                   (s\<lparr>vch := header_range b @ WriteCompactSize S (length (vtx b)) @
                              concat (map (SerializeTx T) (vtx b))\<rparr>) = Inl e)) \<and>
         CBlock_Unserialize S T t
           (stream_write extra (CBlock_Serialize S T b (s\<lparr>vch := []\<rparr>))) =
           Inr (b\<lparr>vchBlockSig := (if CURRENT_VERSION \<le> sint (nVersion b) then vchBlockSig b
                                    else vchBlockSig t),
                  fChecked := fChecked t\<rparr>, s\<lparr>vch := extra\<rparr>)"
proof -
  have enc: "CBlock_Serialize S T b (s\<lparr>vch := []\<rparr>) = s\<lparr>vch := full_view_bytes S T b\<rparr>"
    using assms(1) by (simp add: CBlock_Serialize_full)
  let ?b = "b\<lparr>vchBlockSig := (if CURRENT_VERSION \<le> sint (nVersion b) then vchBlockSig b
                                    else vchBlockSig t), fChecked := fChecked t\<rparr>"
  have whole: "CBlock_Unserialize S T t (s\<lparr>vch := full_view_bytes S T b @ rest\<rparr>) =
      Inr (?b, s\<lparr>vch := rest\<rparr>)" for rest
    using assms(1-4) by (intro CBlock_Unserialize_full) simp_all
  have ext: "stream_extends (CBlock_Unserialize S T t)"
    using assms(5,6) by (rule CBlock_Unserialize_extends)
  have cut: "\<exists>e. CBlock_Unserialize S T t (s\<lparr>vch := p'\<rparr>) = Inl e"
    if "full_view_bytes S T b = p' @ q'" and "q' \<noteq> []" for p' q'
  proof -
    have "CBlock_Unserialize S T t (s\<lparr>vch := p' @ q'\<rparr>) = Inr (?b, s\<lparr>vch := []\<rparr>)"
      using whole [of "[]"] that(1) by simp
    then show ?thesis
      using ext that(2) by (intro truncated_stream_fails [where q = q'])
  qed
  have nosig: "\<exists>e. CBlock_Unserialize S T t
                   (s\<lparr>vch := header_range b @ WriteCompactSize S (length (vtx b)) @
                              concat (map (SerializeTx T) (vtx b))\<rparr>) = Inl e"
    if "CURRENT_VERSION \<le> sint (nVersion b)"
      and "WriteCompactSize S (length (vchBlockSig b)) \<noteq> []"
  proof (rule cut)
    show "full_view_bytes S T b =
            (header_range b @ WriteCompactSize S (length (vtx b)) @
             concat (map (SerializeTx T) (vtx b))) @
            (WriteCompactSize S (length (vchBlockSig b)) @ vchBlockSig b)"
      using that(1) by (simp add: full_view_bytes_def)
    show "WriteCompactSize S (length (vchBlockSig b)) @ vchBlockSig b \<noteq> []"
      using that(2) by simp
  qed
  show ?thesis
    using cut [of p q] nosig whole [of extra] by (simp add: enc stream_write_def)
qed

theorem full_view_decoding_failures_witness:
  "\<not> header_only byte_serialize_h network_stream \<and>
   extends (ReadCompactSize byte_serialize_h) \<and>
   extends (UnserializeTx byte_transaction_h) \<and>
   CURRENT_VERSION \<le> sint (nVersion stake_block) \<and>
   vch (CBlock_Serialize byte_serialize_h byte_transaction_h stake_block network_stream) =
     (header_range stake_block @ [2, 9, 1]) @ [2, 170, 187] \<and>
   (\<exists>e. CBlock_Unserialize byte_serialize_h byte_transaction_h CBlock_new
          (network_stream\<lparr>vch := header_range stake_block @ [2, 9, 1]\<rparr>) = Inl e) \<and>
   CBlock_Unserialize byte_serialize_h byte_transaction_h CBlock_new
     (stream_write [7]
        (CBlock_Serialize byte_serialize_h byte_transaction_h stake_block network_stream)) =
     Inr (stake_block, network_stream\<lparr>vch := [7]\<rparr>)"
proof -
  have c: "CURRENT_VERSION \<le> sint (nVersion stake_block)"
    by (simp add: stake_block_def CURRENT_VERSION_def)
  have k1: "reads_back (ReadCompactSize byte_serialize_h) (WriteCompactSize byte_serialize_h)
     (length (vtx stake_block))"
    by (simp add: byte_sizes_read_back stake_block_def)
  have k2: "CURRENT_VERSION \<le> sint (nVersion stake_block) \<longrightarrow>
     reads_back (ReadCompactSize byte_serialize_h) (WriteCompactSize byte_serialize_h)
     (length (vchBlockSig stake_block))"
    by (simp add: byte_sizes_read_back stake_block_def)
  have t: "\<forall>tx \<in> set (vtx stake_block).
      reads_back (UnserializeTx byte_transaction_h) (SerializeTx byte_transaction_h) tx"
    by (simp add: byte_txs_read_back)
  have "full_view_bytes byte_serialize_h byte_transaction_h stake_block =
     (header_range stake_block @ [2, 9, 1]) @ [2, 170, 187]"
    using c by (simp add: full_view_bytes_def)
      (simp add: stake_block_def byte_serialize_h_def byte_transaction_h_def)
  then have l: "vch (CBlock_Serialize byte_serialize_h byte_transaction_h stake_block
                  (network_stream\<lparr>vch := []\<rparr>)) =
     (header_range stake_block @ [2, 9, 1]) @ [2, 170, 187]"
    by (simp add: CBlock_Serialize_full network_stream_full)
  have o: "network_stream\<lparr>vch := []\<rparr> = network_stream"
    by (simp add: network_stream_def)
  have n: "[2, 170, 187] \<noteq> ([] :: byte list)"
    by simp
  have e: "stake_block\<lparr>vchBlockSig := (if CURRENT_VERSION \<le> sint (nVersion stake_block)
              then vchBlockSig stake_block else vchBlockSig (CBlock_new :: byte CBlock)),
            fChecked := fChecked (CBlock_new :: byte CBlock)\<rparr> = stake_block"
    using c by (simp add: CBlock_new_def) (simp add: stake_block_def)
  show ?thesis
    using full_view_decoding_failures [OF network_stream_full k1 k2 t ReadByteSize_extends
        ReadByteTx_extends, of "header_range stake_block @ [2, 9, 1]" "[2, 170, 187]" CBlock_new "[7]"]
      network_stream_full ReadByteSize_extends ReadByteTx_extends c l n
    unfolding e o by blast
qed

subsection \<open>The header-only view of a block\<close>

text \<open>
  Claim C5.  In a stream for hashing or header-only, writing a block appends the 80 bytes
  of the six header fields and nothing else, whatever the transactions and the signature
  are.  Reading a block from such a stream, into a block of any contents: every block it
  returns has no transactions and an empty signature, and it returns one whenever the
  stream holds at least 80 bytes.
\<close>

theorem header_only_view:
  assumes "header_only S s"
  shows "CBlock_Serialize S T b s = s\<lparr>vch := vch s @ header_range b\<rparr> \<and>
         length (header_range b) = 80 \<and>
         CBlock_Serialize S T (b\<lparr>vtx := txs, vchBlockSig := sig\<rparr>) s = CBlock_Serialize S T b s \<and>
         (\<forall>b' s'. CBlock_Unserialize S T t s = Inr (b', s') \<longrightarrow>
                  vtx b' = [] \<and> vchBlockSig b' = []) \<and>
         (80 \<le> length (vch s) \<longrightarrow>
            (\<exists>b'. CBlock_Unserialize S T t s = Inr (b', s\<lparr>vch := drop 80 (vch s)\<rparr>) \<and>
                  vtx b' = [] \<and> vchBlockSig b' = []))"
proof (intro conjI allI impI)
  show "CBlock_Serialize S T b s = s\<lparr>vch := vch s @ header_range b\<rparr>"
    using assms by (rule CBlock_Serialize_header_only)
  show "length (header_range b) = 80"
    by (rule length_header_range)
  show "CBlock_Serialize S T (b\<lparr>vtx := txs, vchBlockSig := sig\<rparr>) s = CBlock_Serialize S T b s"
    using assms by (simp add: CBlock_Serialize_header_only header_range_def)
next
  fix b' s'
  assume "CBlock_Unserialize S T t s = Inr (b', s')"
  then have "\<exists>h. b' = h\<lparr>vtx := [], vchBlockSig := []\<rparr>"
    by (auto simp add: CBlock_Unserialize_header_only [OF assms] split: sum.splits)
  then show "vtx b' = []" "vchBlockSig b' = []" by auto
next
  assume "80 \<le> length (vch s)"
  then obtain h where h: "CBlockHeader_Unserialize t s = Inr (h, s\<lparr>vch := drop 80 (vch s)\<rparr>)"
    using CBlockHeader_Unserialize_long [of s t] by blast
  show "\<exists>b'. CBlock_Unserialize S T t s = Inr (b', s\<lparr>vch := drop 80 (vch s)\<rparr>) \<and>
                  vtx b' = [] \<and> vchBlockSig b' = []"
    using h by (simp add: CBlock_Unserialize_header_only [OF assms])
qed

theorem header_only_view_witness:
  "header_only byte_serialize_h gethash_stream \<and>
   80 \<le> length (vch (gethash_stream\<lparr>vch := header_range stake_block @ [1, 2]\<rparr>)) \<and>
   CBlock_Serialize byte_serialize_h byte_transaction_h stake_block gethash_stream =
     gethash_stream\<lparr>vch := header_range stake_block\<rparr> \<and>
   CBlock_Unserialize byte_serialize_h byte_transaction_h legacy_block
     (gethash_stream\<lparr>vch := header_range stake_block @ [1, 2]\<rparr>) =
     Inr (stake_block\<lparr>vtx := [], vchBlockSig := [], fChecked := True\<rparr>,
          gethash_stream\<lparr>vch := [1, 2]\<rparr>) \<and>
   vtx (stake_block\<lparr>vtx := [], vchBlockSig := [], fChecked := True\<rparr>) = [] \<and>
   vchBlockSig (stake_block\<lparr>vtx := [], vchBlockSig := [], fChecked := True\<rparr>) = []"
proof -
  let ?s = "gethash_stream\<lparr>vch := header_range stake_block @ [1, 2]\<rparr>"
  have h: "header_only byte_serialize_h ?s"
    by (simp add: gethash_stream_header_only)
  have l: "80 \<le> length (vch ?s)"
    by (simp add: length_header_range)
  have d: "CBlock_Unserialize byte_serialize_h byte_transaction_h legacy_block ?s =
     Inr (stake_block\<lparr>vtx := [], vchBlockSig := [], fChecked := True\<rparr>,
          gethash_stream\<lparr>vch := [1, 2]\<rparr>)"
    by (simp add: CBlock_Unserialize_header_only [OF h] CBlockHeader_Unserialize_header_range)
      (simp add: legacy_block_def stake_block_def)
  have w: "CBlock_Serialize byte_serialize_h byte_transaction_h stake_block gethash_stream =
     gethash_stream\<lparr>vch := header_range stake_block\<rparr>"
    using header_only_view [OF gethash_stream_header_only, of byte_transaction_h stake_block]
    by (simp add: gethash_stream_def)
  show ?thesis
    using gethash_stream_header_only l d w by simp
qed

subsection \<open>Block locators\<close>

text \<open>
  Claim C7.  A locator of the hashes \<open>h0\<close>, \<open>h1\<close>, \<open>h2\<close> is written to a stream that is
  not for hashing as the protocol version of the stream, the length 3 and the three
  hashes; to a stream for hashing as the length 3 and the three hashes, with no version.
  Reading either back, in a stream of the same kind, gives the hashes \<open>h0\<close>, \<open>h1\<close>,
  \<open>h2\<close>.  The codec of the length prefix is assumed to read back the length 3.
\<close>

theorem locator_layout_round_trip:
  assumes "nType sw AND SER_GETHASH S = 0"
    and "nType sh AND SER_GETHASH S \<noteq> 0"
    and "reads_back (ReadCompactSize S) (WriteCompactSize S) 3"
  shows "CBlockLocator_Serialize S \<lparr>vHave = [h0, h1, h2]\<rparr> (sw\<lparr>vch := []\<rparr>) =
           sw\<lparr>vch := le_bytes 4 (nStreamVersion sw) @ WriteCompactSize S 3 @
                       le_bytes 32 h0 @ le_bytes 32 h1 @ le_bytes 32 h2\<rparr> \<and>
         CBlockLocator_Serialize S \<lparr>vHave = [h0, h1, h2]\<rparr> (sh\<lparr>vch := []\<rparr>) =
           sh\<lparr>vch := WriteCompactSize S 3 @ le_bytes 32 h0 @ le_bytes 32 h1 @ le_bytes 32 h2\<rparr> \<and>
         CBlockLocator_Unserialize S l
           (CBlockLocator_Serialize S \<lparr>vHave = [h0, h1, h2]\<rparr> (sw\<lparr>vch := []\<rparr>)) =
           Inr (l\<lparr>vHave := [h0, h1, h2]\<rparr>, sw\<lparr>vch := []\<rparr>) \<and>
         CBlockLocator_Unserialize S l
           (CBlockLocator_Serialize S \<lparr>vHave = [h0, h1, h2]\<rparr> (sh\<lparr>vch := []\<rparr>)) =
           Inr (l\<lparr>vHave := [h0, h1, h2]\<rparr>, sh\<lparr>vch := []\<rparr>)"
proof -
  have "length [h0, h1, h2] = 3"
    by simp
  then have k: "reads_back (ReadCompactSize S) (WriteCompactSize S) (length [h0, h1, h2])"
    using assms(3) by (simp only:)
  have w: "CBlockLocator_Serialize S \<lparr>vHave = [h0, h1, h2]\<rparr> (sw\<lparr>vch := []\<rparr>) =
           sw\<lparr>vch := le_bytes 4 (nStreamVersion sw) @ WriteCompactSize S 3 @
                       le_bytes 32 h0 @ le_bytes 32 h1 @ le_bytes 32 h2\<rparr>"
    using assms(1) by (simp add: CBlockLocator_Serialize_vch numeral_3_eq_3)
  have g: "CBlockLocator_Serialize S \<lparr>vHave = [h0, h1, h2]\<rparr> (sh\<lparr>vch := []\<rparr>) =
           sh\<lparr>vch := WriteCompactSize S 3 @ le_bytes 32 h0 @ le_bytes 32 h1 @ le_bytes 32 h2\<rparr>"
    using assms(2) by (simp add: CBlockLocator_Serialize_vch numeral_3_eq_3)
  have rw: "CBlockLocator_Unserialize S l
           (sw\<lparr>vch := le_bytes 4 (nStreamVersion sw) @ WriteCompactSize S 3 @
                       le_bytes 32 h0 @ le_bytes 32 h1 @ le_bytes 32 h2\<rparr>) =
           Inr (l\<lparr>vHave := [h0, h1, h2]\<rparr>, sw\<lparr>vch := []\<rparr>)"
    using CBlockLocator_Unserialize_wire [OF assms(1) k, of l "nStreamVersion sw" "[]"] by (simp add: numeral_3_eq_3)
  have rg: "CBlockLocator_Unserialize S l
           (sh\<lparr>vch := WriteCompactSize S 3 @ le_bytes 32 h0 @ le_bytes 32 h1 @ le_bytes 32 h2\<rparr>) =
           Inr (l\<lparr>vHave := [h0, h1, h2]\<rparr>, sh\<lparr>vch := []\<rparr>)"
    using CBlockLocator_Unserialize_gethash [OF assms(2) k, of l "[]"] by (simp add: numeral_3_eq_3)
  show ?thesis
    by (simp only: w g rw rg simp_thms)
qed

theorem locator_layout_round_trip_witness:
  "nType network_stream AND SER_GETHASH byte_serialize_h = 0 \<and>
   nType gethash_stream AND SER_GETHASH byte_serialize_h \<noteq> 0 \<and>
   reads_back (ReadCompactSize byte_serialize_h) (WriteCompactSize byte_serialize_h) 3 \<and>
   CBlockLocator_Serialize byte_serialize_h \<lparr>vHave = [10, 11, 12]\<rparr> network_stream =
     network_stream\<lparr>vch := le_bytes 4 (70015 :: int32_t) @ [3] @
       le_bytes 32 (10 :: uint256) @ le_bytes 32 (11 :: uint256) @ le_bytes 32 (12 :: uint256)\<rparr> \<and>
   CBlockLocator_Serialize byte_serialize_h \<lparr>vHave = [10, 11, 12]\<rparr> gethash_stream =
     gethash_stream\<lparr>vch := [3] @
       le_bytes 32 (10 :: uint256) @ le_bytes 32 (11 :: uint256) @ le_bytes 32 (12 :: uint256)\<rparr> \<and>
   CBlockLocator_Unserialize byte_serialize_h \<lparr>vHave = []\<rparr>
     (CBlockLocator_Serialize byte_serialize_h \<lparr>vHave = [10, 11, 12]\<rparr> network_stream) =
     Inr (\<lparr>vHave = [10, 11, 12]\<rparr>, network_stream) \<and>
   CBlockLocator_Unserialize byte_serialize_h \<lparr>vHave = []\<rparr>
     (CBlockLocator_Serialize byte_serialize_h \<lparr>vHave = [10, 11, 12]\<rparr> gethash_stream) =
     Inr (\<lparr>vHave = [10, 11, 12]\<rparr>, gethash_stream)"
proof -
  have k: "reads_back (ReadCompactSize byte_serialize_h) (WriteCompactSize byte_serialize_h) 3"
    by (simp add: byte_sizes_read_back)
  have e: "network_stream\<lparr>vch := []\<rparr> = network_stream"
    "gethash_stream\<lparr>vch := []\<rparr> = gethash_stream"
    "nStreamVersion network_stream = 70015"
    "WriteCompactSize byte_serialize_h 3 = [3]"
    "(\<lparr>vHave = []\<rparr>\<lparr>vHave := [10, 11, 12]\<rparr>) = \<lparr>vHave = [10, 11, 12]\<rparr>"
    by (simp_all add: network_stream_def gethash_stream_def byte_serialize_h_def)
  show ?thesis
    using locator_layout_round_trip [OF network_stream_wire gethash_stream_gethash k,
        of 10 11 12 "\<lparr>vHave = []\<rparr>"]
      network_stream_wire gethash_stream_gethash k
    unfolding e by blast
qed

text \<open>
  Claim C10.  Reading a locator from a stream that is not for hashing does not depend on
  the value of the leading version integer: two streams that differ only in these four
  bytes give the same result.
\<close>

theorem locator_version_discarded:
  assumes "nType s AND SER_GETHASH S = 0"
  shows "CBlockLocator_Unserialize S l (s\<lparr>vch := le_bytes 4 (v1::int32_t) @ rest\<rparr>) =
         CBlockLocator_Unserialize S l (s\<lparr>vch := le_bytes 4 (v2::int32_t) @ rest\<rparr>)"
  using assms by (simp add: CBlockLocator_Unserialize_def unser_word_le_bytes)

theorem locator_version_discarded_witness:
  "nType network_stream AND SER_GETHASH byte_serialize_h = 0 \<and>
   CBlockLocator_Unserialize byte_serialize_h \<lparr>vHave = []\<rparr>
     (network_stream\<lparr>vch := le_bytes 4 (70015 :: int32_t) @ [2] @
        le_bytes 32 (5 :: uint256) @ le_bytes 32 (6 :: uint256)\<rparr>) =
     Inr (\<lparr>vHave = [5, 6]\<rparr>, network_stream) \<and>
   CBlockLocator_Unserialize byte_serialize_h \<lparr>vHave = []\<rparr>
     (network_stream\<lparr>vch := le_bytes 4 (1 :: int32_t) @ [2] @
        le_bytes 32 (5 :: uint256) @ le_bytes 32 (6 :: uint256)\<rparr>) =
     Inr (\<lparr>vHave = [5, 6]\<rparr>, network_stream)"
proof -
  have k: "reads_back (ReadCompactSize byte_serialize_h) (WriteCompactSize byte_serialize_h)
             (length [5 :: uint256, 6])"
    by (simp add: byte_sizes_read_back)
  have d: "CBlockLocator_Unserialize byte_serialize_h \<lparr>vHave = []\<rparr>
     (network_stream\<lparr>vch := le_bytes 4 (70015 :: int32_t) @ [2] @
        le_bytes 32 (5 :: uint256) @ le_bytes 32 (6 :: uint256)\<rparr>) =
     Inr (\<lparr>vHave = [5, 6]\<rparr>, network_stream)"
    using CBlockLocator_Unserialize_wire [OF network_stream_wire k, of "\<lparr>vHave = []\<rparr>" 70015 "[]"]
    by (simp add: byte_serialize_h_def network_stream_def)
  show ?thesis
    using locator_version_discarded [OF network_stream_wire, of "\<lparr>vHave = []\<rparr>" 70015
        "[2] @ le_bytes 32 (5 :: uint256) @ le_bytes 32 (6 :: uint256)" 1]
      d network_stream_wire
    by simp
qed

end
